theory Spec2Isabelle
  imports Main "HOL-Library.FSet" "HOL-Library.AList"
begin

section \<open>Data model of \<^verbatim>\<open>blocksim/models/node.py\<close>\<close>

text \<open>
  Node objects are referred to by their \<^verbatim>\<open>address\<close> (the identity of a node in the
  simulation), so an envelope and a connection hold addresses where the Python holds
  references to \<^verbatim>\<open>Node\<close> objects. Hashes, messages and locations are strings; virtual
  time and rates are Python numbers, modelled as unbounded integers.
\<close>

text \<open>\<^verbatim>\<open>Envelope = namedtuple('Envelope', 'msg, timestamp, destination, origin')\<close>\<close>

record envelope =
  msg :: string
  timestamp :: int
  destination :: string
  origin :: string

text \<open>
  Modelled from the spec: \<^verbatim>\<open>Connection\<close> (\<^verbatim>\<open>blocksim.models.network\<close>, not among the
  sources) is a directed edge \<open>{originNode, destinationNode}\<close> plus an unbounded FIFO
  delivery queue; \<^verbatim>\<open>Connection(env, origin, destination)\<close> starts with an empty queue and
  \<^verbatim>\<open>put\<close> enqueues without suspending.
\<close>

record connection =
  origin_node :: string
  destination_node :: string
  store :: "envelope list"

definition new_connection :: "string \<Rightarrow> string \<Rightarrow> connection" where
  "new_connection orig dest = \<lparr>origin_node = orig, destination_node = dest, store = []\<rparr>"

definition put :: "connection \<Rightarrow> envelope \<Rightarrow> connection" where
  "put c e = c\<lparr>store := store c @ [e]\<rparr>"

text \<open>
  The per-neighbour dictionary built by \<^verbatim>\<open>add_neighbors\<close>. Its keys \<^verbatim>\<open>'location'\<close> and
  \<^verbatim>\<open>'address'\<close> are the fields \<open>nb_location\<close> and \<open>nb_address\<close> (the node record below
  owns the plain names). \<^verbatim>\<open>neighbor.get('connection')\<close> may be \<^verbatim>\<open>None\<close>, hence the option.
  The two known-sets are Python sets, always finite.
\<close>

record neighbor =
  connection :: "connection option"
  head :: string
  nb_location :: string
  nb_address :: string
  knownTxs :: "string fset"
  knownBlocks :: "string fset"

text \<open>
  The node. \<^verbatim>\<open>self.neighbors\<close> is a Python dict: an association list in insertion
  order, read with \<open>map_of\<close> and written with \<open>AList.update\<close> (an existing key keeps its
  position, a new key goes to the end). \<^verbatim>\<open>self.chain.head\<close> is the field \<open>chain_head\<close>
  (the chain model is not among the sources). \<^verbatim>\<open>self.env\<close> is shared by all nodes and
  is passed separately, see \<open>env\<close> below.
\<close>

record node =
  transmission_speed :: int
  location :: string
  address :: string
  neighbors :: "(string \<times> neighbor) list"
  chain_head :: string

text \<open>The simulation environment: its virtual clock \<^verbatim>\<open>env.now\<close>.\<close>

record env =
  now :: int

text \<open>
  The exceptions of the code. \<^verbatim>\<open>_get_neighbor\<close> raises
  \<^verbatim>\<open>RuntimeError('Neighbor {} not reachable by the {}'.format(neighbor_address, self.address))\<close>,
  the spec's \<open>NeighborUnreachable\<close>; the constructor carries the two formatted values.
  \<^verbatim>\<open>NoDirectConnection\<close> is the \<^verbatim>\<open>RuntimeError('There is not a direct connection ...')\<close> of
  \<^verbatim>\<open>send\<close> and \<^verbatim>\<open>listening\<close>. \<^verbatim>\<open>UnknownLocation\<close> is the \<^verbatim>\<open>RuntimeError\<close> of
  \<^verbatim>\<open>NodeFactory._check_location\<close>, carrying the location and \<^verbatim>\<open>self._world.locations\<close>
  that its message formats. \<^verbatim>\<open>TypeError\<close>, \<^verbatim>\<open>KeyError\<close> and \<^verbatim>\<open>ValueError\<close> are Python's own.
\<close>

datatype error =
  NeighborUnreachable string string
  | NoDirectConnection
  | UnknownLocation string "string list"
  | TypeError
  | KeyError
  | ValueError

definition MAX_KNOWN_TXS :: nat where
  "MAX_KNOWN_TXS = 30000"

definition MAX_KNOWN_BLOCKS :: nat where
  "MAX_KNOWN_BLOCKS = 1024"

section \<open>Neighbour management\<close>

text \<open>
  \<^verbatim>\<open>Node.__init__\<close>: the fields are set from the arguments and the neighbour dict starts
  empty. The genesis chain's head is a parameter (\<^verbatim>\<open>Chain\<close> and \<^verbatim>\<open>Block\<close> are not among
  the sources); joining the network belongs to the factory model further down.
\<close>

definition init_node :: "int \<Rightarrow> string \<Rightarrow> string \<Rightarrow> string \<Rightarrow> node" where
  "init_node speed loc addr genesis_head =
     \<lparr>transmission_speed = speed, location = loc, address = addr, neighbors = [],
      chain_head = genesis_head\<rparr>"

text \<open>
  One iteration of the loop of \<^verbatim>\<open>add_neighbors\<close>: a fresh connection from \<^verbatim>\<open>self\<close> to the
  node, and the dictionary literal of the source, with both known-sets the set literal
  \<^verbatim>\<open>{''}\<close>: the set whose one member is the empty string.
\<close>

definition add_neighbor :: "node \<Rightarrow> node \<Rightarrow> node" where
  "add_neighbor self nd =
     self\<lparr>neighbors :=
       AList.update (address nd)
         \<lparr>connection = Some (new_connection (address self) (address nd)),
          head = chain_head nd,
          nb_location = location nd,
          nb_address = address nd,
          knownTxs = {|''''|},
          knownBlocks = {|''''|}\<rparr>
         (neighbors self)\<rparr>"

text \<open>\<^verbatim>\<open>add_neighbors(self, *nodes)\<close>: the loop over the given nodes, in order.\<close>

fun add_neighbors :: "node \<Rightarrow> node list \<Rightarrow> node" where
  "add_neighbors self [] = self"
| "add_neighbors self (nd # nodes) = add_neighbors (add_neighbor self nd) nodes"

text \<open>\<^verbatim>\<open>_update_neighbors\<close>: the entry is stored under the dictionary's own \<^verbatim>\<open>'address'\<close>.\<close>

definition update_neighbors :: "node \<Rightarrow> neighbor \<Rightarrow> node" where
  "update_neighbors self new_neighbor =
     self\<lparr>neighbors := AList.update (nb_address new_neighbor) new_neighbor (neighbors self)\<rparr>"

text \<open>\<^verbatim>\<open>_get_neighbor\<close>: \<^verbatim>\<open>dict.get\<close>, and the \<^verbatim>\<open>RuntimeError\<close> when it gives \<^verbatim>\<open>None\<close>.\<close>

definition get_neighbor :: "node \<Rightarrow> string \<Rightarrow> error + neighbor" where
  "get_neighbor self neighbor_address =
     (case map_of (neighbors self) neighbor_address of
        None \<Rightarrow> Inl (NeighborUnreachable neighbor_address (address self))
      | Some nb \<Rightarrow> Inr nb)"

text \<open>
  The eviction loop shared by both mark functions,
  \<^verbatim>\<open>while len(known) >= MAX: known.pop()\<close>. Python's \<^verbatim>\<open>set.pop()\<close> removes an arbitrary
  member, so the loop is a relation between the set on entry and each possible result:
  any member may be the one removed. \<^verbatim>\<open>pop()\<close> on an empty set raises \<^verbatim>\<open>KeyError\<close>.
\<close>

inductive evict :: "nat \<Rightarrow> string fset \<Rightarrow> error + string fset \<Rightarrow> bool" where
  evict_exit: "\<not> maxn \<le> fcard S \<Longrightarrow> evict maxn S (Inr S)"
| evict_pop: "maxn \<le> fcard S \<Longrightarrow> x |\<in>| S \<Longrightarrow> evict maxn (S |-| {|x|}) r \<Longrightarrow> evict maxn S r"
| evict_empty: "maxn \<le> fcard S \<Longrightarrow> S = {||} \<Longrightarrow> evict maxn S (Inl KeyError)"

text \<open>
  \<^verbatim>\<open>_mark_block\<close>. The result pairs the outcome (the exception raised, or normal return)
  with the node as the call leaves it. The set is mutated in place, so the change shows
  under the key \<^verbatim>\<open>neighbor_address\<close> before \<^verbatim>\<open>_update_neighbors\<close> stores the same
  dictionary under its \<^verbatim>\<open>'address'\<close>. When \<^verbatim>\<open>pop()\<close> raises, the set has been emptied.
\<close>

inductive mark_block :: "string \<Rightarrow> string \<Rightarrow> node \<Rightarrow> (error + unit) \<times> node \<Rightarrow> bool" where
  mark_block_unreachable:
    "get_neighbor self neighbor_address = Inl e \<Longrightarrow>
     mark_block block_hash neighbor_address self (Inl e, self)"
| mark_block_pop_error:
    "get_neighbor self neighbor_address = Inr nb \<Longrightarrow>
     evict MAX_KNOWN_BLOCKS (knownBlocks nb) (Inl e) \<Longrightarrow>
     mark_block block_hash neighbor_address self
       (Inl e, self\<lparr>neighbors :=
          AList.update neighbor_address (nb\<lparr>knownBlocks := {||}\<rparr>) (neighbors self)\<rparr>)"
| mark_block_ok:
    "get_neighbor self neighbor_address = Inr nb \<Longrightarrow>
     evict MAX_KNOWN_BLOCKS (knownBlocks nb) (Inr known_blocks) \<Longrightarrow>
     nb' = nb\<lparr>knownBlocks := finsert block_hash known_blocks\<rparr> \<Longrightarrow>
     mark_block block_hash neighbor_address self
       (Inr (),
        update_neighbors
          (self\<lparr>neighbors := AList.update neighbor_address nb' (neighbors self)\<rparr>) nb')"

text \<open>\<^verbatim>\<open>_mark_transaction\<close>: the same on \<^verbatim>\<open>'knownTxs'\<close> with \<^verbatim>\<open>MAX_KNOWN_TXS\<close>.\<close>

inductive mark_transaction :: "string \<Rightarrow> string \<Rightarrow> node \<Rightarrow> (error + unit) \<times> node \<Rightarrow> bool" where
  mark_transaction_unreachable:
    "get_neighbor self neighbor_address = Inl e \<Longrightarrow>
     mark_transaction tx_hash neighbor_address self (Inl e, self)"
| mark_transaction_pop_error:
    "get_neighbor self neighbor_address = Inr nb \<Longrightarrow>
     evict MAX_KNOWN_TXS (knownTxs nb) (Inl e) \<Longrightarrow>
     mark_transaction tx_hash neighbor_address self
       (Inl e, self\<lparr>neighbors :=
          AList.update neighbor_address (nb\<lparr>knownTxs := {||}\<rparr>) (neighbors self)\<rparr>)"
| mark_transaction_ok:
    "get_neighbor self neighbor_address = Inr nb \<Longrightarrow>
     evict MAX_KNOWN_TXS (knownTxs nb) (Inr known_txs) \<Longrightarrow>
     nb' = nb\<lparr>knownTxs := finsert tx_hash known_txs\<rparr> \<Longrightarrow>
     mark_transaction tx_hash neighbor_address self
       (Inr (),
        update_neighbors
          (self\<lparr>neighbors := AList.update neighbor_address nb' (neighbors self)\<rparr>) nb')"

text \<open>
  A sequence of mark calls on one node, in any interleaving. A call that raises leaves
  the node as the exception found it, and the next call goes on from there.
\<close>

datatype mark_call = MarkBlock string string | MarkTransaction string string

inductive mark_calls :: "node \<Rightarrow> mark_call list \<Rightarrow> node \<Rightarrow> bool" where
  mark_calls_done: "mark_calls self [] self"
| mark_calls_block:
    "mark_block h a self (r, self') \<Longrightarrow> mark_calls self' cs self'' \<Longrightarrow>
     mark_calls self (MarkBlock h a # cs) self''"
| mark_calls_transaction:
    "mark_transaction h a self (r, self') \<Longrightarrow> mark_calls self' cs self'' \<Longrightarrow>
     mark_calls self (MarkTransaction h a # cs) self''"

section \<open>Message relay\<close>

text \<open>
  \<^verbatim>\<open>yield self.env.timeout(delay)\<close> suspends the task until the clock has advanced by
  \<open>delay\<close>. The tasks are modelled one at a time, with no other task scheduled in
  between, so the clock the task sees on resumption is \<open>now + delay\<close>. simpy refuses a
  negative delay with \<^verbatim>\<open>ValueError\<close>.
\<close>

definition timeout :: "int \<Rightarrow> env \<Rightarrow> (error + unit) \<times> env" where
  "timeout delay e =
     (if delay < 0 then (Inl ValueError, e) else (Inr (), e\<lparr>now := now e + delay\<rparr>))"

text \<open>
  \<^verbatim>\<open>send\<close>, run as a task from its first statement to its end. The result pairs the
  outcome with the clock and the node as the task leaves them. The envelope is put on
  the connection object held in the neighbour's dictionary, so the node's entry for
  \<^verbatim>\<open>destination_address\<close> shows the new queue.
\<close>

definition send :: "string \<Rightarrow> int \<Rightarrow> string \<Rightarrow> env \<times> node \<Rightarrow> (error + unit) \<times> env \<times> node" where
  "send destination_address upload_rate m s =
     (case s of (e, self) \<Rightarrow>
      (case get_neighbor self destination_address of
         Inl err \<Rightarrow> (Inl err, e, self)
       | Inr nb \<Rightarrow>
          (case connection nb of
             None \<Rightarrow> (Inl NoDirectConnection, e, self)
           | Some c \<Rightarrow>
              (case timeout 3 e of
                 (Inl err, e1) \<Rightarrow> (Inl err, e1, self)
               | (Inr _, e1) \<Rightarrow>
                  (case timeout upload_rate e1 of
                     (Inl err, e2) \<Rightarrow> (Inl err, e2, self)
                   | (Inr _, e2) \<Rightarrow>
                      (let envelope =
                             \<lparr>msg = m, timestamp = now e2,
                              destination = destination_node c, origin = origin_node c\<rparr>
                       in (Inr (), e2,
                           self\<lparr>neighbors :=
                             AList.update destination_address
                               (nb\<lparr>connection := Some (put c envelope)\<rparr>)
                               (neighbors self)\<rparr>)))))))"

text \<open>
  \<^verbatim>\<open>listening\<close>, run as a task up to its first suspension. The loop variable ranges over
  \<^verbatim>\<open>self.neighbors.items()\<close>, whose elements are (key, value) tuples, and the body
  subscripts it with the string \<^verbatim>\<open>'connection'\<close>. A tuple subscripted with a string
  raises \<^verbatim>\<open>TypeError\<close> whatever the tuple holds. With no neighbour the loop body never
  runs and the task ends.
\<close>

datatype listening_state = Finished | Raised error | AwaitingEnvelope connection

definition tuple_getitem :: "string \<times> neighbor \<Rightarrow> string \<Rightarrow> error + connection option" where
  "tuple_getitem item key = Inl TypeError"

definition listening :: "int \<Rightarrow> env \<times> node \<Rightarrow> listening_state" where
  "listening download_rate s =
     (case s of (e, self) \<Rightarrow>
      (case neighbors self of
         [] \<Rightarrow> Finished
       | item # _ \<Rightarrow>
          (case tuple_getitem item ''connection'' of
             Inl err \<Rightarrow> Raised err
           | Inr None \<Rightarrow> Raised NoDirectConnection
           | Inr (Some c) \<Rightarrow> AwaitingEnvelope c)))"

text \<open>
  The states a node can be in: as constructed, and after any interleaving of
  \<^verbatim>\<open>add_neighbors\<close>, the two mark functions (returning or raising) and \<^verbatim>\<open>send\<close>.
\<close>

inductive reachable :: "node \<Rightarrow> bool" where
  reachable_init: "reachable (init_node speed loc addr genesis_head)"
| reachable_add_neighbors: "reachable self \<Longrightarrow> reachable (add_neighbors self nodes)"
| reachable_mark_block:
    "reachable self \<Longrightarrow> mark_block h a self (r, self') \<Longrightarrow> reachable self'"
| reachable_mark_transaction:
    "reachable self \<Longrightarrow> mark_transaction h a self (r, self') \<Longrightarrow> reachable self'"
| reachable_send:
    "reachable self \<Longrightarrow> send a rate m (e, self) = (r, e', self') \<Longrightarrow> reachable self'"

section \<open>Node population: \<^verbatim>\<open>blocksim/node_factory.py\<close>\<close>

text \<open>
  The world's configuration as the factory reads it: \<^verbatim>\<open>self._world.locations\<close> and
  \<^verbatim>\<open>self._world.blockchain\<close>. The \<^verbatim>\<open>miners\<close> and \<^verbatim>\<open>non_miners\<close> arguments are dicts from
  a location to a dict with the key \<^verbatim>\<open>'how_many'\<close>: association lists from the location
  to that number, in the order \<^verbatim>\<open>items()\<close> yields them.
\<close>

record world =
  locations :: "string list"
  blockchain :: string

type_synonym population = "(string \<times> int) list"

text \<open>
  \<^verbatim>\<open>BTCNode\<close>, \<^verbatim>\<open>ETHNode\<close> and their \<^verbatim>\<open>connect\<close> are not among the sources. They are
  parameters of the model: a constructor takes the location, the address and the mining
  flag, and \<^verbatim>\<open>connect\<close> takes the node and the list of all nodes; each acts on the state
  \<open>'w\<close> of everything they may touch (the environment, the network registry, the nodes
  themselves), and a created node is held by a handle of type \<open>'nd\<close>.
\<close>

record ('nd, 'w) node_classes =
  btc_node :: "string \<Rightarrow> string \<Rightarrow> bool \<Rightarrow> 'w \<Rightarrow> 'nd \<times> 'w"
  eth_node :: "string \<Rightarrow> string \<Rightarrow> bool \<Rightarrow> 'w \<Rightarrow> 'nd \<times> 'w"
  connect :: "'nd \<Rightarrow> 'nd list \<Rightarrow> 'w \<Rightarrow> 'w"

text \<open>\<^verbatim>\<open>str.lower()\<close> on ASCII letters, and \<^verbatim>\<open>str(node_id)\<close> in decimal.\<close>

definition char_lower :: "char \<Rightarrow> char" where
  "char_lower c =
     (if 65 \<le> (of_char c :: nat) \<and> (of_char c :: nat) \<le> 90
      then char_of ((of_char c :: nat) + 32) else c)"

definition lower :: "string \<Rightarrow> string" where
  "lower s = map char_lower s"

fun str_of_nat :: "nat \<Rightarrow> string" where
  "str_of_nat n =
     (if n < 10 then [char_of (48 + n)]
      else str_of_nat (n div 10) @ [char_of (48 + n mod 10)])"

declare str_of_nat.simps [simp del]

text \<open>
  The inner loop \<^verbatim>\<open>for i in range(_miners['how_many'])\<close>: the counter \<^verbatim>\<open>node_id\<close> is
  incremented, the address is \<^verbatim>\<open>f'{miner_location.lower()}-{node_id}'\<close>, the node is
  constructed and appended. The first argument counts the iterations left.
\<close>

fun spawn ::
  "(string \<Rightarrow> string \<Rightarrow> bool \<Rightarrow> 'w \<Rightarrow> 'nd \<times> 'w) \<Rightarrow> bool \<Rightarrow> string \<Rightarrow> nat \<Rightarrow>
   nat \<times> 'nd list \<times> 'w \<Rightarrow> nat \<times> 'nd list \<times> 'w" where
  "spawn ctor is_mining miner_location 0 st = st"
| "spawn ctor is_mining miner_location (Suc k) (node_id, acc, w) =
     (let node_id' = node_id + 1;
          node_address = lower miner_location @ ''-'' @ str_of_nat node_id';
          (new, w') = ctor miner_location node_address is_mining w
      in spawn ctor is_mining miner_location k (node_id', acc @ [new], w'))"

text \<open>The outer loop over \<^verbatim>\<open>miners.items()\<close>; \<^verbatim>\<open>range\<close> of a negative number is empty.\<close>

fun spawn_all ::
  "(string \<Rightarrow> string \<Rightarrow> bool \<Rightarrow> 'w \<Rightarrow> 'nd \<times> 'w) \<Rightarrow> bool \<Rightarrow> population \<Rightarrow>
   nat \<times> 'nd list \<times> 'w \<Rightarrow> nat \<times> 'nd list \<times> 'w" where
  "spawn_all ctor is_mining [] st = st"
| "spawn_all ctor is_mining ((miner_location, how_many) # items) st =
     spawn_all ctor is_mining items (spawn ctor is_mining miner_location (nat how_many) st)"

text \<open>\<^verbatim>\<open>for node in nodes_list: node.connect(nodes_list)\<close>\<close>

fun connect_all :: "('nd \<Rightarrow> 'nd list \<Rightarrow> 'w \<Rightarrow> 'w) \<Rightarrow> 'nd list \<Rightarrow> 'nd list \<Rightarrow> 'w \<Rightarrow> 'w" where
  "connect_all conn nodes_list [] w = w"
| "connect_all conn nodes_list (nd # rest) w =
     connect_all conn nodes_list rest (conn nd nodes_list w)"

text \<open>
  \<^verbatim>\<open>create_bitcoin_nodes\<close> and \<^verbatim>\<open>create_ethereum_nodes\<close> have the same body up to the node
  class: miners first, then non-miners with the counter running on, then the wiring.
\<close>

definition create_chain_nodes ::
  "(string \<Rightarrow> string \<Rightarrow> bool \<Rightarrow> 'w \<Rightarrow> 'nd \<times> 'w) \<Rightarrow> ('nd \<Rightarrow> 'nd list \<Rightarrow> 'w \<Rightarrow> 'w) \<Rightarrow>
   population \<Rightarrow> population \<Rightarrow> 'w \<Rightarrow> 'nd list \<times> 'w" where
  "create_chain_nodes ctor conn miners non_miners w =
     (let (node_id, miners_list, w1) = spawn_all ctor True miners (0, [], w);
          (node_id', non_miners_list, w2) = spawn_all ctor False non_miners (node_id, [], w1);
          nodes_list = miners_list @ non_miners_list
      in (nodes_list, connect_all conn nodes_list nodes_list w2))"

definition create_bitcoin_nodes ::
  "('nd, 'w) node_classes \<Rightarrow> population \<Rightarrow> population \<Rightarrow> 'w \<Rightarrow> 'nd list \<times> 'w" where
  "create_bitcoin_nodes cls = create_chain_nodes (btc_node cls) (connect cls)"

definition create_ethereum_nodes ::
  "('nd, 'w) node_classes \<Rightarrow> population \<Rightarrow> population \<Rightarrow> 'w \<Rightarrow> 'nd list \<times> 'w" where
  "create_ethereum_nodes cls = create_chain_nodes (eth_node cls) (connect cls)"

text \<open>
  \<^verbatim>\<open>_check_location\<close>: the keys of \<^verbatim>\<open>miners\<close> followed by the keys of \<^verbatim>\<open>non_miners\<close>, checked
  in that order; the first one outside \<^verbatim>\<open>self._world.locations\<close> raises.
\<close>

fun check_each :: "string list \<Rightarrow> string list \<Rightarrow> error + unit" where
  "check_each locs [] = Inr ()"
| "check_each locs (loc # rest) =
     (if loc \<notin> set locs then Inl (UnknownLocation loc locs) else check_each locs rest)"

definition check_location :: "world \<Rightarrow> population \<Rightarrow> population \<Rightarrow> error + unit" where
  "check_location wd miners non_miners =
     (let nodes_location = map fst miners @ map fst non_miners
      in check_each (locations wd) nodes_location)"

text \<open>
  What \<^verbatim>\<open>create_nodes\<close> can return, and the two kinds of callable its switch holds: a
  bound method of two parameters, and the default \<^verbatim>\<open>lambda: "Invalid blockchain"\<close>, a
  function of no parameter. Python raises \<^verbatim>\<open>TypeError\<close> when a function of no parameter
  is called with two positional arguments, before its body runs.
\<close>

datatype 'nd returned = NodesList "'nd list" | Str string

datatype ('nd, 'w) callable =
  Method2 "population \<Rightarrow> population \<Rightarrow> 'w \<Rightarrow> 'nd list \<times> 'w"
  | Lambda0 "'nd returned"

fun call2 ::
  "('nd, 'w) callable \<Rightarrow> population \<Rightarrow> population \<Rightarrow> 'w \<Rightarrow> (error + 'nd returned) \<times> 'w" where
  "call2 (Method2 f) miners non_miners w =
     (case f miners non_miners w of (nodes_list, w') \<Rightarrow> (Inr (NodesList nodes_list), w'))"
| "call2 (Lambda0 v) miners non_miners w = (Inl TypeError, w)"

text \<open>\<^verbatim>\<open>dict.get(key, default)\<close>\<close>

definition dict_get :: "('k \<times> 'v) list \<Rightarrow> 'k \<Rightarrow> 'v \<Rightarrow> 'v" where
  "dict_get d k dflt = (case map_of d k of None \<Rightarrow> dflt | Some v \<Rightarrow> v)"

text \<open>
  \<^verbatim>\<open>create_nodes\<close>: the location check, then the switch on \<^verbatim>\<open>self._world.blockchain\<close> and
  the call of what it gives with \<^verbatim>\<open>(miners, non_miners)\<close>. The result pairs the outcome
  with the state the call leaves.
\<close>

definition create_nodes ::
  "('nd, 'w) node_classes \<Rightarrow> world \<Rightarrow> population \<Rightarrow> population \<Rightarrow> 'w \<Rightarrow>
   (error + 'nd returned) \<times> 'w" where
  "create_nodes cls wd miners non_miners w =
     (case check_location wd miners non_miners of
        Inl err \<Rightarrow> (Inl err, w)
      | Inr _ \<Rightarrow>
         (let blockchain_switcher =
                [(''bitcoin'', Method2 (create_bitcoin_nodes cls)),
                 (''ethereum'', Method2 (create_ethereum_nodes cls))]
          in call2 (dict_get blockchain_switcher (blockchain wd) (Lambda0 (Str ''Invalid blockchain'')))
               miners non_miners w))"

section \<open>The bound on the known-sets, as a predicate\<close>

text \<open>
  Both known-sets of a neighbour entry are within \<^verbatim>\<open>MAX_KNOWN_BLOCKS\<close> and
  \<^verbatim>\<open>MAX_KNOWN_TXS\<close>; a node is bounded when every entry of its neighbour dict is.
\<close>

definition within_bounds :: "neighbor \<Rightarrow> bool" where
  "within_bounds nb \<longleftrightarrow>
     fcard (knownBlocks nb) \<le> MAX_KNOWN_BLOCKS \<and> fcard (knownTxs nb) \<le> MAX_KNOWN_TXS"

definition known_sets_bounded :: "node \<Rightarrow> bool" where
  "known_sets_bounded n \<longleftrightarrow> list_all (\<lambda>(k, nb). within_bounds nb) (neighbors n)"

section \<open>The known-sets of a node, replaced\<close>

text \<open>
  The same node with other known-sets: the entry under key \<open>k\<close> of the neighbour dict
  gets \<open>fst (g k)\<close> as its \<^verbatim>\<open>knownTxs\<close> and \<open>snd (g k)\<close> as its \<^verbatim>\<open>knownBlocks\<close>, and
  nothing else of the node changes. Code that gives the same outcome on every such
  node does not read the known-sets.
\<close>

definition with_known :: "(string \<Rightarrow> string fset \<times> string fset) \<Rightarrow> node \<Rightarrow> node" where
  "with_known g self =
     self\<lparr>neighbors :=
       map (\<lambda>(k, nb). (k, nb\<lparr>knownTxs := fst (g k), knownBlocks := snd (g k)\<rparr>))
         (neighbors self)\<rparr>"

section \<open>Sample inputs\<close>

text \<open>
  Two nodes, and node \<open>a\<close> with \<open>b\<close> as its only neighbour, holding given known-sets.
  \<open>sample_hash k\<close> is a non-empty string, different for each \<open>k\<close>. The factory's node
  classes only record what they are asked.
\<close>

definition node_a :: node where
  "node_a = init_node 1 ''Ohio'' ''a'' ''genesis''"

definition node_b :: node where
  "node_b = init_node 1 ''Tokyo'' ''b'' ''genesis''"

definition neighbor_b :: "string fset \<Rightarrow> string fset \<Rightarrow> neighbor" where
  "neighbor_b txs blocks =
     \<lparr>connection = Some \<lparr>origin_node = ''a'', destination_node = ''b'', store = []\<rparr>,
      head = ''genesis'', nb_location = ''Tokyo'', nb_address = ''b'',
      knownTxs = txs, knownBlocks = blocks\<rparr>"

definition node_a_knowing :: "string fset \<Rightarrow> string fset \<Rightarrow> node" where
  "node_a_knowing txs blocks = node_a\<lparr>neighbors := [(''b'', neighbor_b txs blocks)]\<rparr>"

definition sample_hash :: "nat \<Rightarrow> string" where
  "sample_hash k = replicate (Suc k) CHR ''t''"

definition recording_classes :: "(string \<times> bool, string list) node_classes" where
  "recording_classes =
     \<lparr>btc_node = (\<lambda>loc addr is_mining w. ((addr, is_mining), w @ [addr])),
      eth_node = (\<lambda>loc addr is_mining w. ((addr, is_mining), w @ [addr])),
      connect = (\<lambda>nd nodes_list w. w)\<rparr>"

section \<open>Properties\<close>

subsection \<open>Looking a neighbour up\<close>

lemma get_neighbor_unknown:
  "map_of (neighbors self) a = None \<Longrightarrow>
   get_neighbor self a = Inl (NeighborUnreachable a (address self))"
  by (simp add: get_neighbor_def)

lemma get_neighbor_known:
  "map_of (neighbors self) a = Some nb \<Longrightarrow> get_neighbor self a = Inr nb"
  by (simp add: get_neighbor_def)

lemma node_a_no_b: "map_of (neighbors node_a) ''b'' = None"
  by (simp add: node_a_def init_node_def)

text \<open>
  C5. When the neighbour address has no entry in the node's neighbour map, \<^verbatim>\<open>_mark_block\<close>
  and \<^verbatim>\<open>_mark_transaction\<close> fail with the \<open>NeighborUnreachable\<close> error: each call has an
  outcome, and every outcome is that error.
\<close>

theorem mark_unknown_neighbor_unreachable:
  assumes "map_of (neighbors self) a = None"
  shows "(\<exists>r. mark_block h a self r) \<and> (\<exists>r. mark_transaction h a self r) \<and>
         (\<forall>r. mark_block h a self r \<or> mark_transaction h a self r \<longrightarrow>
              fst r = Inl (NeighborUnreachable a (address self)))"
proof -
  from assms have g: "get_neighbor self a = Inl (NeighborUnreachable a (address self))"
    by (rule get_neighbor_unknown)
  have b: "\<exists>r. mark_block h a self r"
    using mark_block_unreachable [OF g] by blast
  have t: "\<exists>r. mark_transaction h a self r"
    using mark_transaction_unreachable [OF g] by blast
  have "fst r = Inl (NeighborUnreachable a (address self))"
    if "mark_block h a self r \<or> mark_transaction h a self r" for r
    using that g by (auto elim: mark_block.cases mark_transaction.cases)
  with b t show ?thesis by blast
qed

theorem mark_unknown_neighbor_unreachable_witness:
  "map_of (neighbors node_a) ''b'' = None \<and>
   (\<exists>r. mark_block ''h1'' ''b'' node_a r) \<and>
   (\<exists>r. mark_transaction ''h1'' ''b'' node_a r) \<and>
   \<not> (\<exists>r. mark_block ''h1'' ''b'' node_a r \<and>
          fst r \<noteq> Inl (NeighborUnreachable ''b'' (address node_a)))"
  using mark_unknown_neighbor_unreachable [OF node_a_no_b, of "''h1''"] node_a_no_b
  by blast

text \<open>
  C10. When the neighbour address has no entry in the node's neighbour map, whatever
  \<^verbatim>\<open>_mark_block\<close> or \<^verbatim>\<open>_mark_transaction\<close> does leaves the node exactly as it was: the
  neighbour map with every neighbour's known-sets, head and connection, and the node's
  other fields.
\<close>

theorem failing_mark_keeps_node:
  assumes "map_of (neighbors self) a = None"
  shows "\<forall>r. mark_block h a self r \<or> mark_transaction h a self r \<longrightarrow> snd r = self"
proof (intro allI impI)
  fix r
  assume m: "mark_block h a self r \<or> mark_transaction h a self r"
  from assms have g: "get_neighbor self a = Inl (NeighborUnreachable a (address self))"
    by (rule get_neighbor_unknown)
  from m g show "snd r = self"
    by (auto elim: mark_block.cases mark_transaction.cases)
qed

theorem failing_mark_keeps_node_witness:
  "map_of (neighbors node_a) ''b'' = None \<and>
   mark_block ''h1'' ''b'' node_a (Inl (NeighborUnreachable ''b'' (address node_a)), node_a) \<and>
   \<not> (\<exists>r. (mark_block ''h1'' ''b'' node_a r \<or> mark_transaction ''h1'' ''b'' node_a r) \<and>
          snd r \<noteq> node_a)"
proof -
  have m: "mark_block ''h1'' ''b'' node_a (Inl (NeighborUnreachable ''b'' (address node_a)), node_a)"
    by (rule mark_block_unreachable) (rule get_neighbor_unknown [OF node_a_no_b])
  have "\<not> (\<exists>r. (mark_block ''h1'' ''b'' node_a r \<or> mark_transaction ''h1'' ''b'' node_a r) \<and>
          snd r \<noteq> node_a)"
    using failing_mark_keeps_node [OF node_a_no_b, of "''h1''"] by blast
  with m node_a_no_b show ?thesis by blast
qed

subsection \<open>Sending\<close>

text \<open>
  C3. \<^verbatim>\<open>send\<close> to an address with no entry in the node's neighbour map fails with the
  \<open>NeighborUnreachable\<close> error, and leaves the clock where it was and the node as it was:
  no connection of the node has an envelope more.
\<close>

theorem send_unknown_neighbor:
  assumes "map_of (neighbors self) dest = None"
  shows "send dest upload_rate m (e, self) =
           (Inl (NeighborUnreachable dest (address self)), e, self)"
  using assms by (simp add: send_def get_neighbor_def)

theorem send_unknown_neighbor_witness:
  "map_of (neighbors node_a) ''b'' = None \<and>
   send ''b'' 5 ''tx1'' (\<lparr>now = 0\<rparr>, node_a) =
     (Inl (NeighborUnreachable ''b'' (address node_a)), \<lparr>now = 0\<rparr>, node_a)"
  using send_unknown_neighbor [OF node_a_no_b, of 5 "''tx1''" "\<lparr>now = 0\<rparr>"] node_a_no_b
  by simp

text \<open>What a completed \<^verbatim>\<open>send\<close> has done.\<close>

lemma send_success:
  assumes "send dest rate m (e, self) = (Inr u, e', self')"
  shows "\<exists>nb c. map_of (neighbors self) dest = Some nb \<and> connection nb = Some c \<and> 0 \<le> rate \<and>
      e' = e\<lparr>now := now e + 3 + rate\<rparr> \<and>
      self' = self\<lparr>neighbors := AList.update dest
        (nb\<lparr>connection := Some (put c \<lparr>msg = m, timestamp = now e + 3 + rate,
              destination = destination_node c, origin = origin_node c\<rparr>)\<rparr>) (neighbors self)\<rparr>"
  using assms
  by (auto simp: send_def get_neighbor_def timeout_def Let_def split: option.splits if_splits)

lemma map_known_update:
  assumes "map_of al k = Some nb" "knownTxs nb' = knownTxs nb" "knownBlocks nb' = knownBlocks nb"
  shows "map (\<lambda>(k, nb). (k, knownTxs nb, knownBlocks nb)) (AList.update k nb' al)
       = map (\<lambda>(k, nb). (k, knownTxs nb, knownBlocks nb)) al"
  using assms(1)
proof (induction al)
  case Nil
  then show ?case by simp
next
  case (Cons p al)
  obtain k' v where p: "p = (k', v)" by (cases p)
  show ?case
  proof (cases "k' = k")
    case True
    with Cons.prems p have "v = nb" by simp
    with True p assms(2,3) show ?thesis by simp
  next
    case False
    with Cons p show ?thesis by simp
  qed
qed

text \<open>The outcome of \<^verbatim>\<open>send\<close> on a node with other known-sets.\<close>

lemma map_of_with_known:
  "map_of (neighbors (with_known g self)) k
     = map_option (\<lambda>nb. nb\<lparr>knownTxs := fst (g k), knownBlocks := snd (g k)\<rparr>)
         (map_of (neighbors self) k)"
proof -
  have "map_of (map (\<lambda>(k, nb). (k, nb\<lparr>knownTxs := fst (g k), knownBlocks := snd (g k)\<rparr>)) al) k
     = map_option (\<lambda>nb. nb\<lparr>knownTxs := fst (g k), knownBlocks := snd (g k)\<rparr>) (map_of al k)"
    for al :: "(string \<times> neighbor) list"
    by (induction al) auto
  then show ?thesis by (simp add: with_known_def)
qed

lemma with_known_update:
  "with_known g (self\<lparr>neighbors := AList.update k nb (neighbors self)\<rparr>)
     = (with_known g self)\<lparr>neighbors :=
         AList.update k (nb\<lparr>knownTxs := fst (g k), knownBlocks := snd (g k)\<rparr>)
           (neighbors (with_known g self))\<rparr>"
proof -
  have "map (\<lambda>(k, nb). (k, nb\<lparr>knownTxs := fst (g k), knownBlocks := snd (g k)\<rparr>)) (AList.update k nb al)
     = AList.update k (nb\<lparr>knownTxs := fst (g k), knownBlocks := snd (g k)\<rparr>)
         (map (\<lambda>(k, nb). (k, nb\<lparr>knownTxs := fst (g k), knownBlocks := snd (g k)\<rparr>)) al)"
    for al :: "(string \<times> neighbor) list"
    by (induction al) auto
  then show ?thesis by (simp add: with_known_def)
qed

lemma send_with_known:
  "send dest rate m (e, with_known g self) =
     (case send dest rate m (e, self) of (r, e', self') \<Rightarrow> (r, e', with_known g self'))"
proof (cases "map_of (neighbors self) dest")
  case None
  then have "map_of (neighbors (with_known g self)) dest = None"
    by (simp add: map_of_with_known)
  with None show ?thesis
    by (simp add: send_def get_neighbor_def with_known_def)
next
  case (Some nb)
  let ?nb = "nb\<lparr>knownTxs := fst (g dest), knownBlocks := snd (g dest)\<rparr>"
  from Some have s: "map_of (neighbors (with_known g self)) dest = Some ?nb"
    by (simp add: map_of_with_known)
  show ?thesis
  proof (cases "connection nb")
    case None
    with Some s show ?thesis by (simp add: send_def get_neighbor_def)
  next
    case c: (Some c)
    have u: "with_known g (self\<lparr>neighbors := AList.update dest (nb\<lparr>connection := Some c'\<rparr>) (neighbors self)\<rparr>)
       = (with_known g self)\<lparr>neighbors :=
           AList.update dest (?nb\<lparr>connection := Some c'\<rparr>) (neighbors (with_known g self))\<rparr>" for c'
      by (cases nb) (simp add: with_known_update)
    show ?thesis
      unfolding send_def get_neighbor_def
      by (simp add: Some s c timeout_def u Let_def)
  qed
qed

text \<open>
  C7. A \<^verbatim>\<open>send\<close> that runs to completion neither updates nor reads the known-sets.
  It leaves the known-transactions and the known-blocks set of every neighbour of the
  node as they were, key by key. And it does not consult them: started on the same node
  with any other known-sets, whatever they are and for every neighbour, it completes
  too, at the same time, and leaves the same node, with those other known-sets in it.
\<close>

theorem send_keeps_known_sets:
  assumes "send dest rate m (e, self) = (Inr (), e', self')"
  shows "map (\<lambda>(k, nb). (k, knownTxs nb, knownBlocks nb)) (neighbors self')
       = map (\<lambda>(k, nb). (k, knownTxs nb, knownBlocks nb)) (neighbors self) \<and>
         (\<forall>g. send dest rate m (e, with_known g self) = (Inr (), e', with_known g self'))"
proof -
  from send_success [OF assms] obtain nb c where
    nb: "map_of (neighbors self) dest = Some nb" and
    s': "self' = self\<lparr>neighbors := AList.update dest
        (nb\<lparr>connection := Some (put c \<lparr>msg = m, timestamp = now e + 3 + rate,
              destination = destination_node c, origin = origin_node c\<rparr>)\<rparr>) (neighbors self)\<rparr>"
    by blast
  have unchanged: "map (\<lambda>(k, nb). (k, knownTxs nb, knownBlocks nb)) (neighbors self')
       = map (\<lambda>(k, nb). (k, knownTxs nb, knownBlocks nb)) (neighbors self)"
    unfolding s' using map_known_update [OF nb] by simp
  have unread: "send dest rate m (e, with_known g self) = (Inr (), e', with_known g self')" for g
    using send_with_known [of dest rate m e g self] assms by simp
  from unchanged unread show ?thesis by blast
qed

lemma wired_a_b:
  "add_neighbors node_a [node_b] =
     node_a\<lparr>neighbors :=
       [(''b'', \<lparr>connection = Some \<lparr>origin_node = ''a'', destination_node = ''b'', store = []\<rparr>,
                head = ''genesis'', nb_location = ''Tokyo'', nb_address = ''b'',
                knownTxs = {|''''|}, knownBlocks = {|''''|}\<rparr>)]\<rparr>"
  by (simp add: node_a_def node_b_def init_node_def add_neighbor_def new_connection_def)

lemma send_a_b:
  "send ''b'' 5 ''tx1'' (\<lparr>now = 0\<rparr>, add_neighbors node_a [node_b]) =
     (Inr (), \<lparr>now = 8\<rparr>,
      node_a\<lparr>neighbors :=
       [(''b'', \<lparr>connection = Some \<lparr>origin_node = ''a'', destination_node = ''b'',
                   store = [\<lparr>msg = ''tx1'', timestamp = 8, destination = ''b'', origin = ''a''\<rparr>]\<rparr>,
                head = ''genesis'', nb_location = ''Tokyo'', nb_address = ''b'',
                knownTxs = {|''''|}, knownBlocks = {|''''|}\<rparr>)]\<rparr>)"
  unfolding wired_a_b
  by (simp add: send_def get_neighbor_def timeout_def put_def node_a_def init_node_def)

theorem send_keeps_known_sets_witness:
  "send ''b'' 5 ''tx1'' (\<lparr>now = 0\<rparr>, add_neighbors node_a [node_b]) =
     (Inr (), \<lparr>now = 8\<rparr>,
      node_a\<lparr>neighbors :=
       [(''b'', \<lparr>connection = Some \<lparr>origin_node = ''a'', destination_node = ''b'',
                   store = [\<lparr>msg = ''tx1'', timestamp = 8, destination = ''b'', origin = ''a''\<rparr>]\<rparr>,
                head = ''genesis'', nb_location = ''Tokyo'', nb_address = ''b'',
                knownTxs = {|''''|}, knownBlocks = {|''''|}\<rparr>)]\<rparr>) \<and>
   map (\<lambda>(k, nb). (k, knownTxs nb, knownBlocks nb))
     (neighbors (snd (snd (send ''b'' 5 ''tx1'' (\<lparr>now = 0\<rparr>, add_neighbors node_a [node_b])))))
   = map (\<lambda>(k, nb). (k, knownTxs nb, knownBlocks nb)) (neighbors (add_neighbors node_a [node_b])) \<and>
   send ''b'' 5 ''tx1''
     (\<lparr>now = 0\<rparr>, with_known (\<lambda>k. ({|''t1'', ''t2''|}, {|''h1''|})) (add_neighbors node_a [node_b])) =
     (Inr (), \<lparr>now = 8\<rparr>,
      with_known (\<lambda>k. ({|''t1'', ''t2''|}, {|''h1''|}))
        (snd (snd (send ''b'' 5 ''tx1'' (\<lparr>now = 0\<rparr>, add_neighbors node_a [node_b])))))"
proof -
  have s: "send ''b'' 5 ''tx1'' (\<lparr>now = 0\<rparr>, add_neighbors node_a [node_b]) =
     (Inr (), \<lparr>now = 8\<rparr>,
      snd (snd (send ''b'' 5 ''tx1'' (\<lparr>now = 0\<rparr>, add_neighbors node_a [node_b]))))"
    by (simp only: send_a_b snd_conv)
  from send_keeps_known_sets [OF s] send_a_b show ?thesis by blast
qed

subsection \<open>Listening\<close>

text \<open>
  C4. Nodes A and B are wired to each other and A runs
  \<^verbatim>\<open>send(B.address, 5, "tx1")\<close> from time 0. The send completes at time 8 and leaves the
  envelope \<open>(tx1, 8, B, A)\<close> on A's connection to B. B's listening task does not receive
  it: started with A as its neighbour, the task raises \<^verbatim>\<open>TypeError\<close> at the subscript
  of the first item, before it waits on any connection.
\<close>

theorem listening_raises_type_error:
  "send ''b'' 5 ''tx1'' (\<lparr>now = 0\<rparr>, add_neighbors node_a [node_b]) =
     (Inr (), \<lparr>now = 8\<rparr>,
      node_a\<lparr>neighbors :=
       [(''b'', \<lparr>connection = Some \<lparr>origin_node = ''a'', destination_node = ''b'',
                   store = [\<lparr>msg = ''tx1'', timestamp = 8, destination = ''b'', origin = ''a''\<rparr>]\<rparr>,
                head = ''genesis'', nb_location = ''Tokyo'', nb_address = ''b'',
                knownTxs = {|''''|}, knownBlocks = {|''''|}\<rparr>)]\<rparr>) \<and>
   listening 2 (\<lparr>now = 0\<rparr>, add_neighbors node_b [node_a]) = Raised TypeError \<and>
   listening 2 (\<lparr>now = 8\<rparr>, add_neighbors node_b [node_a]) = Raised TypeError"
  using send_a_b
  by (simp add: listening_def tuple_getitem_def node_a_def node_b_def init_node_def
      add_neighbor_def)

subsection \<open>Adding neighbours\<close>

lemma neighbors_add_neighbor:
  "map_of (neighbors (add_neighbor self nd)) =
   (map_of (neighbors self))(address nd \<mapsto>
      \<lparr>connection = Some (new_connection (address self) (address nd)),
       head = chain_head nd, nb_location = location nd, nb_address = address nd,
       knownTxs = {|''''|}, knownBlocks = {|''''|}\<rparr>)"
  by (simp add: add_neighbor_def update_conv')

lemma address_add_neighbor [simp]: "address (add_neighbor self nd) = address self"
  by (simp add: add_neighbor_def)

lemma address_add_neighbors [simp]: "address (add_neighbors self nodes) = address self"
  by (induction nodes arbitrary: self) simp_all

lemma add_neighbors_append:
  "add_neighbors self (xs @ ys) = add_neighbors (add_neighbors self xs) ys"
  by (induction xs arbitrary: self) simp_all

text \<open>
  Every node passed gets an entry under its address, written by the last node passed
  with that address.
\<close>

lemma add_neighbors_installed:
  assumes "nd \<in> set nodes"
  shows "\<exists>nb. map_of (neighbors (add_neighbors self nodes)) (address nd) = Some nb \<and>
           knownTxs nb = {|''''|} \<and> knownBlocks nb = {|''''|} \<and> nb_address nb = address nd \<and>
           connection nb = Some (new_connection (address self) (address nd)) \<and>
           head nb = chain_head (last (filter (\<lambda>m. address m = address nd) nodes))"
  using assms
proof (induction nodes arbitrary: self rule: rev_induct)
  case Nil
  then show ?case by simp
next
  case (snoc x xs)
  show ?case
  proof (cases "address x = address nd")
    case True
    then show ?thesis
      by (simp add: add_neighbors_append neighbors_add_neighbor)
  next
    case False
    with snoc.prems have "nd \<in> set xs" by auto
    from snoc.IH [OF this, of self] False show ?thesis
      by (auto simp add: add_neighbors_append neighbors_add_neighbor)
  qed
qed

lemma filter_address_distinct:
  "distinct (map address nodes) \<Longrightarrow> nd \<in> set nodes \<Longrightarrow>
   filter (\<lambda>m. address m = address nd) nodes = [nd]"
proof (induction nodes)
  case Nil
  then show ?case by simp
next
  case (Cons x xs)
  show ?case
  proof (cases "x = nd")
    case True
    with Cons.prems have "address nd \<notin> address ` set xs" by simp
    then have "\<forall>m \<in> set xs. address m \<noteq> address nd"
      by (metis image_eqI)
    then have "filter (\<lambda>m. address m = address nd) xs = []"
      by (simp add: filter_empty_conv)
    with True show ?thesis by simp
  next
    case False
    with Cons.prems have "nd \<in> set xs" "address x \<noteq> address nd" by auto
    with Cons show ?thesis by simp
  qed
qed

text \<open>
  C2, as the code has it. After \<^verbatim>\<open>add_neighbors\<close>, whatever the node's neighbour map held
  before, every node passed has an entry under its address whose known-blocks and
  known-transactions sets are both the one-member set \<^verbatim>\<open>{''}\<close> (size 1, the empty string
  its member), and whose head is the chain head of the last node passed with that
  address: the node's own when the addresses passed are distinct.
\<close>

theorem add_neighbors_resets_known_sets:
  assumes "nd \<in> set nodes"
  shows "\<exists>nb. map_of (neighbors (add_neighbors self nodes)) (address nd) = Some nb \<and>
           knownBlocks nb = {|''''|} \<and> knownTxs nb = {|''''|} \<and>
           fcard (knownBlocks nb) = 1 \<and> fcard (knownTxs nb) = 1 \<and>
           head nb = chain_head (last (filter (\<lambda>m. address m = address nd) nodes)) \<and>
           (distinct (map address nodes) \<longrightarrow> head nb = chain_head nd)"
proof -
  from add_neighbors_installed [OF assms, of self] obtain nb where
    nb: "map_of (neighbors (add_neighbors self nodes)) (address nd) = Some nb"
      "knownTxs nb = {|''''|}" "knownBlocks nb = {|''''|}"
      "head nb = chain_head (last (filter (\<lambda>m. address m = address nd) nodes))"
    by blast
  have "fcard {|''''|} = 1"
    by (simp add: fcard_finsert_if)
  moreover have "head nb = chain_head nd" if "distinct (map address nodes)"
    using nb(4) filter_address_distinct [OF that assms] by simp
  ultimately show ?thesis using nb by simp
qed

theorem add_neighbors_resets_known_sets_witness:
  "node_b \<in> set [node_b] \<and> distinct (map address [node_b]) \<and>
   (\<exists>nb. map_of (neighbors (add_neighbors (add_neighbors node_a [node_b]) [node_b]))
            (address node_b) = Some nb \<and>
         knownBlocks nb = {|''''|} \<and> knownTxs nb = {|''''|} \<and> head nb = chain_head node_b)"
proof -
  have h: "node_b \<in> set [node_b]" by simp
  have d: "distinct (map address [node_b])" by simp
  from add_neighbors_resets_known_sets [OF h, of "add_neighbors node_a [node_b]"] h d
  show ?thesis by blast
qed

theorem add_neighbors_known_sets_counterexample:
  "map_option (\<lambda>nb. (fcard (knownBlocks nb), fcard (knownTxs nb), knownBlocks nb, knownTxs nb))
     (map_of (neighbors (add_neighbors node_a [node_b])) (address node_b))
   = Some (1, 1, {|''''|}, {|''''|})"
  unfolding wired_a_b by (simp add: node_b_def init_node_def fcard_finsert_if)

subsection \<open>The node factory\<close>

lemma check_each_ok: "set req \<subseteq> set locs \<Longrightarrow> check_each locs req = Inr ()"
  by (induction req) auto

lemma check_each_fails:
  "\<not> set req \<subseteq> set locs \<Longrightarrow>
   \<exists>loc. check_each locs req = Inl (UnknownLocation loc locs) \<and> loc \<in> set req \<and> loc \<notin> set locs"
  by (induction req) auto

text \<open>
  C8. When some requested location (a key of \<^verbatim>\<open>miners\<close> or of \<^verbatim>\<open>non_miners\<close>) is not
  among the world's locations, \<^verbatim>\<open>create_nodes\<close> fails with the error that carries an
  invalid requested location and the world's locations, and the state is the one it
  was called in: no node constructor and no \<^verbatim>\<open>connect\<close> has run.
\<close>

theorem create_nodes_unknown_location:
  assumes "\<not> set (map fst miners @ map fst non_miners) \<subseteq> set (locations wd)"
  shows "\<exists>loc. create_nodes cls wd miners non_miners w =
                 (Inl (UnknownLocation loc (locations wd)), w) \<and>
           loc \<in> set (map fst miners @ map fst non_miners) \<and> loc \<notin> set (locations wd)"
proof -
  from check_each_fails [OF assms] obtain loc where
    "check_each (locations wd) (map fst miners @ map fst non_miners) =
       Inl (UnknownLocation loc (locations wd))"
    "loc \<in> set (map fst miners @ map fst non_miners)" "loc \<notin> set (locations wd)"
    by blast
  then show ?thesis
    by (auto simp: create_nodes_def check_location_def Let_def)
qed

theorem create_nodes_unknown_location_witness:
  "\<not> set (map fst [(''Ohio'', 2::int)] @ map fst [(''Mars'', 1::int)])
       \<subseteq> set (locations \<lparr>locations = [''Ohio'', ''Tokyo''], blockchain = ''bitcoin''\<rparr>) \<and>
   (\<exists>loc. create_nodes recording_classes
            \<lparr>locations = [''Ohio'', ''Tokyo''], blockchain = ''bitcoin''\<rparr>
            [(''Ohio'', 2)] [(''Mars'', 1)] [] =
          (Inl (UnknownLocation loc [''Ohio'', ''Tokyo'']), []))"
proof -
  have h: "\<not> set (map fst [(''Ohio'', 2::int)] @ map fst [(''Mars'', 1::int)])
       \<subseteq> set (locations \<lparr>locations = [''Ohio'', ''Tokyo''], blockchain = ''bitcoin''\<rparr>)"
    by simp
  from create_nodes_unknown_location [OF h, of recording_classes "[]"] h
  show ?thesis by auto
qed

text \<open>
  C9. With every requested location valid and a blockchain selector that is neither
  \<^verbatim>\<open>'bitcoin'\<close> nor \<^verbatim>\<open>'ethereum'\<close>, \<^verbatim>\<open>create_nodes\<close> does not return the string
  \<^verbatim>\<open>"Invalid blockchain"\<close>: the default of the switch is a function of no parameter,
  it is called with two arguments, and the call raises \<^verbatim>\<open>TypeError\<close>.
\<close>

theorem create_nodes_invalid_blockchain_raises:
  "create_nodes recording_classes \<lparr>locations = [''Ohio'', ''Tokyo''], blockchain = ''dogecoin''\<rparr>
     [(''Ohio'', 2)] [(''Tokyo'', 1)] [] = (Inl TypeError, [])"
  by (simp add: create_nodes_def check_location_def dict_get_def)

subsection \<open>The eviction loop\<close>

lemma evict_Inr_subset: "evict maxn S r \<Longrightarrow> r = Inr T \<Longrightarrow> T |\<subseteq>| S"
  by (induction rule: evict.induct) auto

lemma evict_Inr_below: "evict maxn S r \<Longrightarrow> r = Inr T \<Longrightarrow> fcard T < maxn"
  by (induction rule: evict.induct) auto

lemma evict_no_error: "evict maxn S r \<Longrightarrow> 0 < maxn \<Longrightarrow> r \<noteq> Inl e"
  by (induction rule: evict.induct) (auto simp: fcard_fempty)

lemma evict_card:
  "evict maxn S r \<Longrightarrow> r = Inr T \<Longrightarrow> 0 < maxn \<Longrightarrow> fcard T = min (fcard S) (maxn - 1)"
proof (induction rule: evict.induct)
  case (evict_exit maxn S)
  then show ?case by auto
next
  case (evict_pop maxn S x r)
  then have "fcard T = min (fcard (S |-| {|x|})) (maxn - 1)" by simp
  moreover have "fcard (S |-| {|x|}) = fcard S - 1"
    using evict_pop.hyps(2) by (simp add: fcard_fminus_fsingleton)
  ultimately show ?case using evict_pop.hyps(1) by simp
next
  case (evict_empty maxn S)
  then show ?case by simp
qed

lemma evict_total:
  assumes "0 < maxn"
  shows "\<exists>T. evict maxn S (Inr T)"
proof (induction "fcard S" arbitrary: S rule: less_induct)
  case less
  show ?case
  proof (cases "maxn \<le> fcard S")
    case False
    then show ?thesis using evict_exit by blast
  next
    case True
    with assms have "S \<noteq> {||}" by (auto simp: fcard_fempty)
    then obtain x where x: "x |\<in>| S" by auto
    then have "fcard (S |-| {|x|}) < fcard S" by (rule fcard_fminus1_less)
    from less [OF this] obtain T where "evict maxn (S |-| {|x|}) (Inr T)" by blast
    with True x show ?thesis using evict_pop by blast
  qed
qed

lemma evict_one:
  assumes "fcard S = maxn" "x |\<in>| S"
  shows "evict maxn S (Inr (S |-| {|x|}))"
proof -
  have "fcard (S |-| {|x|}) < fcard S" using assms(2) by (rule fcard_fminus1_less)
  then have "\<not> maxn \<le> fcard (S |-| {|x|})" using assms(1) by simp
  then have "evict maxn (S |-| {|x|}) (Inr (S |-| {|x|}))" by (rule evict_exit)
  with assms show ?thesis by (auto intro: evict_pop)
qed

lemma max_known_positive: "0 < MAX_KNOWN_BLOCKS" "0 < MAX_KNOWN_TXS"
  by (simp_all add: MAX_KNOWN_BLOCKS_def MAX_KNOWN_TXS_def)

lemma list_all_update:
  "P (k, v) \<Longrightarrow> list_all P al \<Longrightarrow> list_all P (AList.update k v al)"
  by (induction al) auto

subsection \<open>The bound on the known-sets\<close>

lemma bounded_update:
  "within_bounds nb \<Longrightarrow> known_sets_bounded n \<Longrightarrow>
   known_sets_bounded (n\<lparr>neighbors := AList.update k nb (neighbors n)\<rparr>)"
  by (simp add: known_sets_bounded_def list_all_update)

lemma bounded_entry:
  "known_sets_bounded n \<Longrightarrow> map_of (neighbors n) k = Some nb \<Longrightarrow> within_bounds nb"
  by (auto simp: known_sets_bounded_def list_all_iff dest: map_of_SomeD)

lemma get_neighbor_Inr: "get_neighbor n a = Inr nb \<Longrightarrow> map_of (neighbors n) a = Some nb"
  by (simp add: get_neighbor_def split: option.splits)

lemma finsert_below: "fcard T < m \<Longrightarrow> fcard (finsert h T) \<le> m"
  by (simp add: fcard_finsert_if)

lemma mark_block_bounded:
  assumes "mark_block h a n (r, n')" "known_sets_bounded n"
  shows "known_sets_bounded n'"
  using assms(1)
proof (cases rule: mark_block.cases)
  case (mark_block_unreachable e)
  with assms(2) show ?thesis by simp
next
  case (mark_block_pop_error nb e)
  from bounded_entry [OF assms(2) get_neighbor_Inr [OF mark_block_pop_error(3)]]
  have "within_bounds (nb\<lparr>knownBlocks := {||}\<rparr>)"
    by (simp add: within_bounds_def fcard_fempty)
  with mark_block_pop_error(2) assms(2) show ?thesis
    by (simp add: bounded_update)
next
  case (mark_block_ok nb known_blocks nb')
  from bounded_entry [OF assms(2) get_neighbor_Inr [OF mark_block_ok(3)]]
  have nb: "within_bounds nb" .
  from evict_Inr_below [OF mark_block_ok(4) refl]
  have "fcard (finsert h known_blocks) \<le> MAX_KNOWN_BLOCKS" by (rule finsert_below)
  with nb mark_block_ok(5) have nb': "within_bounds nb'"
    by (simp add: within_bounds_def)
  have "known_sets_bounded (n\<lparr>neighbors := AList.update a nb' (neighbors n)\<rparr>)"
    using nb' assms(2) by (rule bounded_update)
  from bounded_update [OF nb' this, of "nb_address nb'"] mark_block_ok(2)
  show ?thesis by (simp add: update_neighbors_def)
qed

lemma mark_transaction_bounded:
  assumes "mark_transaction h a n (r, n')" "known_sets_bounded n"
  shows "known_sets_bounded n'"
  using assms(1)
proof (cases rule: mark_transaction.cases)
  case (mark_transaction_unreachable e)
  with assms(2) show ?thesis by simp
next
  case (mark_transaction_pop_error nb e)
  from bounded_entry [OF assms(2) get_neighbor_Inr [OF mark_transaction_pop_error(3)]]
  have "within_bounds (nb\<lparr>knownTxs := {||}\<rparr>)"
    by (simp add: within_bounds_def fcard_fempty)
  with mark_transaction_pop_error(2) assms(2) show ?thesis
    by (simp add: bounded_update)
next
  case (mark_transaction_ok nb known_txs nb')
  from bounded_entry [OF assms(2) get_neighbor_Inr [OF mark_transaction_ok(3)]]
  have nb: "within_bounds nb" .
  from evict_Inr_below [OF mark_transaction_ok(4) refl]
  have "fcard (finsert h known_txs) \<le> MAX_KNOWN_TXS" by (rule finsert_below)
  with nb mark_transaction_ok(5) have nb': "within_bounds nb'"
    by (simp add: within_bounds_def)
  have "known_sets_bounded (n\<lparr>neighbors := AList.update a nb' (neighbors n)\<rparr>)"
    using nb' assms(2) by (rule bounded_update)
  from bounded_update [OF nb' this, of "nb_address nb'"] mark_transaction_ok(2)
  show ?thesis by (simp add: update_neighbors_def)
qed

lemma add_neighbor_bounded:
  "known_sets_bounded n \<Longrightarrow> known_sets_bounded (add_neighbor n nd)"
  unfolding add_neighbor_def
  by (rule bounded_update)
     (simp_all add: within_bounds_def fcard_finsert_if fcard_fempty MAX_KNOWN_BLOCKS_def MAX_KNOWN_TXS_def)

lemma add_neighbors_bounded:
  "known_sets_bounded n \<Longrightarrow> known_sets_bounded (add_neighbors n nodes)"
  by (induction nodes arbitrary: n) (simp_all add: add_neighbor_bounded)

lemma send_outcome:
  assumes "send dest rate m (e, n) = (r, e', n')"
  shows "n' = n \<or> (\<exists>nb c. map_of (neighbors n) dest = Some nb \<and>
           n' = n\<lparr>neighbors := AList.update dest (nb\<lparr>connection := Some c\<rparr>) (neighbors n)\<rparr>)"
  using assms
  by (auto simp: send_def get_neighbor_def timeout_def Let_def split: option.splits if_splits)

lemma send_bounded:
  assumes "send dest rate m (e, n) = (r, e', n')" "known_sets_bounded n"
  shows "known_sets_bounded n'"
proof -
  from send_outcome [OF assms(1)] consider "n' = n"
    | nb c where "map_of (neighbors n) dest = Some nb"
        "n' = n\<lparr>neighbors := AList.update dest (nb\<lparr>connection := Some c\<rparr>) (neighbors n)\<rparr>"
    by blast
  then show ?thesis
  proof cases
    case 1
    with assms(2) show ?thesis by simp
  next
    case 2
    from bounded_entry [OF assms(2) 2(1)] have "within_bounds (nb\<lparr>connection := Some c\<rparr>)"
      by (simp add: within_bounds_def)
    from bounded_update [OF this assms(2)] 2(2) show ?thesis by simp
  qed
qed

lemma reachable_bounded: "reachable n \<Longrightarrow> known_sets_bounded n"
proof (induction rule: reachable.induct)
  case (reachable_init speed loc addr genesis_head)
  show ?case by (simp add: known_sets_bounded_def init_node_def)
next
  case (reachable_add_neighbors self nodes)
  then show ?case by (simp add: add_neighbors_bounded)
next
  case (reachable_mark_block self h a r self')
  then show ?case by (blast intro: mark_block_bounded)
next
  case (reachable_mark_transaction self h a r self')
  then show ?case by (blast intro: mark_transaction_bounded)
next
  case (reachable_send self a rate m e r e' self')
  then show ?case by (blast intro: send_bounded)
qed

lemma mark_calls_reachable: "mark_calls n cs n' \<Longrightarrow> reachable n \<Longrightarrow> reachable n'"
  by (induction rule: mark_calls.induct)
     (auto intro: reachable_mark_block reachable_mark_transaction)

text \<open>
  C1. From any state a node can be in, after any sequence of \<^verbatim>\<open>_mark_block\<close> and
  \<^verbatim>\<open>_mark_transaction\<close> calls (any hashes, any neighbour addresses, with any choice of
  the members \<^verbatim>\<open>pop()\<close> removes, failing calls included), every neighbour in the node's
  neighbour map has at most 1024 known blocks and at most 30000 known transactions.
  Inside a call the bound holds as well: what the eviction loop leaves is a subset of the
  set it started from and is strictly below the bound, so the insert that follows never
  goes past it.
\<close>

theorem known_sets_never_exceed_bounds:
  assumes "reachable n" and "mark_calls n cs n'" and "map_of (neighbors n') k = Some nb"
  shows "fcard (knownBlocks nb) \<le> 1024 \<and> fcard (knownTxs nb) \<le> 30000 \<and>
         (\<forall>T. evict MAX_KNOWN_BLOCKS (knownBlocks nb) (Inr T) \<longrightarrow>
               T |\<subseteq>| knownBlocks nb \<and> fcard T < 1024) \<and>
         (\<forall>T. evict MAX_KNOWN_TXS (knownTxs nb) (Inr T) \<longrightarrow>
               T |\<subseteq>| knownTxs nb \<and> fcard T < 30000)"
proof -
  from mark_calls_reachable [OF assms(2,1)] have "known_sets_bounded n'"
    by (rule reachable_bounded)
  from bounded_entry [OF this assms(3)]
  have "fcard (knownBlocks nb) \<le> 1024 \<and> fcard (knownTxs nb) \<le> 30000"
    by (simp add: within_bounds_def MAX_KNOWN_BLOCKS_def MAX_KNOWN_TXS_def)
  moreover have "T |\<subseteq>| S \<and> fcard T < 1024" if "evict MAX_KNOWN_BLOCKS S (Inr T)" for S T
    using evict_Inr_subset [OF that refl] evict_Inr_below [OF that refl]
    by (simp add: MAX_KNOWN_BLOCKS_def)
  moreover have "T |\<subseteq>| S \<and> fcard T < 30000" if "evict MAX_KNOWN_TXS S (Inr T)" for S T
    using evict_Inr_subset [OF that refl] evict_Inr_below [OF that refl]
    by (simp add: MAX_KNOWN_TXS_def)
  ultimately show ?thesis by blast
qed

lemma sample_hash_inj [simp]: "sample_hash i = sample_hash j \<longleftrightarrow> i = j"
  by (simp add: sample_hash_def)

lemma sample_hash_nonempty [simp]: "sample_hash k \<noteq> ''''" "'''' \<noteq> sample_hash k"
  by (simp_all add: sample_hash_def)

lemma distinct_samples: "distinct (map sample_hash [0..<k])"
  by (simp add: distinct_map inj_on_def)

lemma empty_not_sample: "'''' \<notin> set (map sample_hash [0..<k])"
  by auto

lemma wired_knowing: "add_neighbors node_a [node_b] = node_a_knowing {|''''|} {|''''|}"
  by (simp add: node_a_knowing_def neighbor_b_def node_a_def node_b_def init_node_def
      add_neighbor_def new_connection_def)

lemma knowing_entry: "map_of (neighbors (node_a_knowing txs blocks)) ''b'' = Some (neighbor_b txs blocks)"
  by (simp add: node_a_knowing_def)

lemma knowing_update:
  "(node_a_knowing txs blocks)\<lparr>neighbors := AList.update ''b''
       ((neighbor_b txs blocks)\<lparr>knownTxs := X\<rparr>) (neighbors (node_a_knowing txs blocks))\<rparr>
   = node_a_knowing X blocks"
  by (simp add: node_a_knowing_def neighbor_b_def)

lemma knowing_update_blocks:
  "(node_a_knowing txs blocks)\<lparr>neighbors := AList.update ''b''
       ((neighbor_b txs blocks)\<lparr>knownBlocks := X\<rparr>) (neighbors (node_a_knowing txs blocks))\<rparr>
   = node_a_knowing txs X"
  by (simp add: node_a_knowing_def neighbor_b_def)

lemma mark_transaction_step:
  assumes "map_of (neighbors n) a = Some nb" "nb_address nb = a"
    and "evict MAX_KNOWN_TXS (knownTxs nb) (Inr T)"
  shows "mark_transaction h a n
           (Inr (), n\<lparr>neighbors := AList.update a (nb\<lparr>knownTxs := finsert h T\<rparr>) (neighbors n)\<rparr>)"
  using mark_transaction_ok [OF get_neighbor_known [OF assms(1)] assms(3) refl, of h] assms(2)
  by (simp add: update_neighbors_def)

lemma mark_block_step:
  assumes "map_of (neighbors n) a = Some nb" "nb_address nb = a"
    and "evict MAX_KNOWN_BLOCKS (knownBlocks nb) (Inr T)"
  shows "mark_block h a n
           (Inr (), n\<lparr>neighbors := AList.update a (nb\<lparr>knownBlocks := finsert h T\<rparr>) (neighbors n)\<rparr>)"
  using mark_block_ok [OF get_neighbor_known [OF assms(1)] assms(3) refl, of h] assms(2)
  by (simp add: update_neighbors_def)

lemma neighbor_b_simps [simp]:
  "knownTxs (neighbor_b txs blocks) = txs" "knownBlocks (neighbor_b txs blocks) = blocks"
  "nb_address (neighbor_b txs blocks) = ''b''"
  by (simp_all add: neighbor_b_def)

lemma reachable_wired: "reachable (add_neighbors node_a [node_b])"
  unfolding node_a_def by (rule reachable_add_neighbors [OF reachable_init])

lemma sample_marks:
  "mark_calls (add_neighbors node_a [node_b])
     [MarkBlock ''h1'' ''b'', MarkTransaction ''t1'' ''b'', MarkBlock ''h2'' ''c'']
     (node_a_knowing {|''t1'', ''''|} {|''h1'', ''''|})"
proof -
  have evb: "evict MAX_KNOWN_BLOCKS (knownBlocks (neighbor_b {|''''|} {|''''|})) (Inr {|''''|})"
    using evict_exit [of MAX_KNOWN_BLOCKS "{|''''|}"]
    by (simp add: MAX_KNOWN_BLOCKS_def fcard_finsert_if fcard_fempty)
  have evt: "evict MAX_KNOWN_TXS (knownTxs (neighbor_b {|''''|} {|''h1'', ''''|})) (Inr {|''''|})"
    using evict_exit [of MAX_KNOWN_TXS "{|''''|}"]
    by (simp add: MAX_KNOWN_TXS_def fcard_finsert_if fcard_fempty)
  have s1: "mark_block ''h1'' ''b'' (node_a_knowing {|''''|} {|''''|})
              (Inr (), node_a_knowing {|''''|} {|''h1'', ''''|})"
    using mark_block_step [OF knowing_entry neighbor_b_simps(3) evb, of "''h1''"]
    by (simp only: knowing_update_blocks)
  have s2: "mark_transaction ''t1'' ''b'' (node_a_knowing {|''''|} {|''h1'', ''''|})
              (Inr (), node_a_knowing {|''t1'', ''''|} {|''h1'', ''''|})"
    using mark_transaction_step [OF knowing_entry neighbor_b_simps(3) evt, of "''t1''"]
    by (simp only: knowing_update)
  have "map_of (neighbors (node_a_knowing {|''t1'', ''''|} {|''h1'', ''''|})) ''c'' = None"
    by (simp add: node_a_knowing_def)
  from mark_block_unreachable [OF get_neighbor_unknown [OF this], of "''h2''"]
  have s3: "mark_block ''h2'' ''c'' (node_a_knowing {|''t1'', ''''|} {|''h1'', ''''|})
              (Inl (NeighborUnreachable ''c'' (address (node_a_knowing {|''t1'', ''''|} {|''h1'', ''''|}))),
               node_a_knowing {|''t1'', ''''|} {|''h1'', ''''|})" .
  show ?thesis
    unfolding wired_knowing
    by (rule mark_calls_block [OF s1 mark_calls_transaction [OF s2
          mark_calls_block [OF s3 mark_calls_done]]])
qed

theorem known_sets_never_exceed_bounds_witness:
  "reachable (add_neighbors node_a [node_b]) \<and>
   mark_calls (add_neighbors node_a [node_b])
     [MarkBlock ''h1'' ''b'', MarkTransaction ''t1'' ''b'', MarkBlock ''h2'' ''c'']
     (node_a_knowing {|''t1'', ''''|} {|''h1'', ''''|}) \<and>
   map_of (neighbors (node_a_knowing {|''t1'', ''''|} {|''h1'', ''''|})) ''b''
     = Some (neighbor_b {|''t1'', ''''|} {|''h1'', ''''|}) \<and>
   fcard (knownBlocks (neighbor_b {|''t1'', ''''|} {|''h1'', ''''|})) \<le> 1024 \<and>
   fcard (knownTxs (neighbor_b {|''t1'', ''''|} {|''h1'', ''''|})) \<le> 30000"
  using known_sets_never_exceed_bounds [OF reachable_wired sample_marks knowing_entry]
    reachable_wired sample_marks knowing_entry
  by blast

subsection \<open>Runs of \<^verbatim>\<open>_mark_transaction\<close> calls\<close>

inductive_cases mark_calls_NilE: "mark_calls n [] n'"
inductive_cases mark_calls_TxE: "mark_calls n (MarkTransaction h a # cs) n'"

lemma mark_transaction_known:
  assumes "mark_transaction h a n (r, n')" "map_of (neighbors n) a = Some nb" "nb_address nb = a"
  shows "\<exists>T. evict MAX_KNOWN_TXS (knownTxs nb) (Inr T) \<and> r = Inr () \<and>
           n' = n\<lparr>neighbors := AList.update a (nb\<lparr>knownTxs := finsert h T\<rparr>) (neighbors n)\<rparr>"
  using assms(1)
proof (cases rule: mark_transaction.cases)
  case (mark_transaction_unreachable e)
  with get_neighbor_known [OF assms(2)] show ?thesis by simp
next
  case (mark_transaction_pop_error nb2 e)
  from evict_no_error [OF mark_transaction_pop_error(4) max_known_positive(2), where e = e]
  show ?thesis by simp
next
  case (mark_transaction_ok nb2 known_txs nb')
  with get_neighbor_known [OF assms(2)] have "nb2 = nb" by simp
  with mark_transaction_ok assms(3) show ?thesis
    by (auto simp: update_neighbors_def)
qed

lemma mark_block_total: "\<exists>r. mark_block h a n r"
proof (cases "get_neighbor n a")
  case (Inl e)
  then show ?thesis using mark_block_unreachable by blast
next
  case (Inr nb)
  from evict_total [OF max_known_positive(1)] obtain T
    where "evict MAX_KNOWN_BLOCKS (knownBlocks nb) (Inr T)" by blast
  from mark_block_ok [OF Inr this refl] show ?thesis by blast
qed

lemma mark_transaction_total: "\<exists>r. mark_transaction h a n r"
proof (cases "get_neighbor n a")
  case (Inl e)
  then show ?thesis using mark_transaction_unreachable by blast
next
  case (Inr nb)
  from evict_total [OF max_known_positive(2)] obtain T
    where "evict MAX_KNOWN_TXS (knownTxs nb) (Inr T)" by blast
  from mark_transaction_ok [OF Inr this refl] show ?thesis by blast
qed

lemma mark_calls_total: "\<exists>n'. mark_calls n cs n'"
proof (induction cs arbitrary: n)
  case Nil
  show ?case using mark_calls_done by blast
next
  case (Cons c cs)
  show ?case
  proof (cases c)
    case (MarkBlock h a)
    from mark_block_total obtain r n1 where "mark_block h a n (r, n1)" by (metis surj_pair)
    moreover from Cons obtain n' where "mark_calls n1 cs n'" by blast
    ultimately show ?thesis using MarkBlock mark_calls_block by blast
  next
    case (MarkTransaction h a)
    from mark_transaction_total obtain r n1 where "mark_transaction h a n (r, n1)"
      by (metis surj_pair)
    moreover from Cons obtain n' where "mark_calls n1 cs n'" by blast
    ultimately show ?thesis using MarkTransaction mark_calls_transaction by blast
  qed
qed

lemma mark_calls_append:
  "mark_calls n xs n1 \<Longrightarrow> mark_calls n1 ys n2 \<Longrightarrow> mark_calls n (xs @ ys) n2"
  by (induction rule: mark_calls.induct)
     (auto intro: mark_calls_block mark_calls_transaction)

lemma entry_after_update:
  "map_of (neighbors (n\<lparr>neighbors := AList.update a nb (neighbors n)\<rparr>)) a = Some nb"
  by (simp add: update_conv')

lemma marks_universal:
  assumes "mark_calls n (map (\<lambda>h. MarkTransaction h a) hs) n'"
    and "map_of (neighbors n) a = Some nb" "nb_address nb = a"
    and "distinct hs" "\<forall>h \<in> set hs. h |\<notin>| knownTxs nb"
    and "fcard (knownTxs nb) \<le> MAX_KNOWN_TXS"
  shows "\<exists>X. n' = n\<lparr>neighbors := AList.update a (nb\<lparr>knownTxs := X\<rparr>) (neighbors n)\<rparr> \<and>
             fcard X = min MAX_KNOWN_TXS (fcard (knownTxs nb) + length hs) \<and>
             X |\<subseteq>| knownTxs nb |\<union>| fset_of_list hs"
  using assms
proof (induction hs arbitrary: n nb)
  case Nil
  from Nil.prems(1) have "n' = n" by (auto elim: mark_calls_NilE)
  moreover have "n\<lparr>neighbors := AList.update a (nb\<lparr>knownTxs := knownTxs nb\<rparr>) (neighbors n)\<rparr> = n"
    using Nil.prems(2) by (simp add: update_triv)
  ultimately show ?case using Nil.prems(6) by (intro exI [of _ "knownTxs nb"]) simp
next
  case (Cons h hs)
  from Cons.prems(1) obtain r n1 where
    step: "mark_transaction h a n (r, n1)" and
    rest: "mark_calls n1 (map (\<lambda>h. MarkTransaction h a) hs) n'"
    by (auto elim: mark_calls_TxE)
  from mark_transaction_known [OF step Cons.prems(2,3)] obtain T where
    T: "evict MAX_KNOWN_TXS (knownTxs nb) (Inr T)" and
    n1: "n1 = n\<lparr>neighbors := AList.update a (nb\<lparr>knownTxs := finsert h T\<rparr>) (neighbors n)\<rparr>"
    by blast
  let ?nb1 = "nb\<lparr>knownTxs := finsert h T\<rparr>"
  have sub: "T |\<subseteq>| knownTxs nb" using evict_Inr_subset [OF T refl] .
  have cardT: "fcard T = min (fcard (knownTxs nb)) (MAX_KNOWN_TXS - 1)"
    using evict_card [OF T refl max_known_positive(2)] .
  have hT: "h |\<notin>| T" using Cons.prems(5) sub by auto
  have card1: "fcard (finsert h T) = Suc (fcard T)"
    using hT by (simp add: fcard_finsert_if)
  have e1: "map_of (neighbors n1) a = Some ?nb1" unfolding n1 by (rule entry_after_update)
  have a1: "nb_address ?nb1 = a" using Cons.prems(3) by simp
  have d1: "distinct hs" using Cons.prems(4) by simp
  have f1: "\<forall>h' \<in> set hs. h' |\<notin>| knownTxs ?nb1"
    using Cons.prems(4,5) sub by auto
  have b1: "fcard (knownTxs ?nb1) \<le> MAX_KNOWN_TXS"
    using card1 cardT max_known_positive(2) by simp
  from Cons.IH [OF rest e1 a1 d1 f1 b1] obtain X where
    X: "n' = n1\<lparr>neighbors := AList.update a (?nb1\<lparr>knownTxs := X\<rparr>) (neighbors n1)\<rparr>"
       "fcard X = min MAX_KNOWN_TXS (fcard (knownTxs ?nb1) + length hs)"
       "X |\<subseteq>| knownTxs ?nb1 |\<union>| fset_of_list hs"
    by blast
  have "n' = n\<lparr>neighbors := AList.update a (nb\<lparr>knownTxs := X\<rparr>) (neighbors n)\<rparr>"
    using X(1) unfolding n1 by simp
  moreover have "fcard X = min MAX_KNOWN_TXS (fcard (knownTxs nb) + length (h # hs))"
  proof -
    have "min MAX_KNOWN_TXS (Suc (min (fcard (knownTxs nb)) (MAX_KNOWN_TXS - 1)) + length hs)
        = min MAX_KNOWN_TXS (fcard (knownTxs nb) + Suc (length hs))"
      using Cons.prems(6) max_known_positive(2) by arith
    with X(2) card1 cardT show ?thesis by simp
  qed
  moreover have "X |\<subseteq>| knownTxs nb |\<union>| fset_of_list (h # hs)"
    using X(3) sub by auto
  ultimately show ?case by blast
qed

lemma fill_run:
  assumes "map_of (neighbors n) a = Some nb" "nb_address nb = a"
    and "fcard (knownTxs nb) + length hs \<le> MAX_KNOWN_TXS"
  shows "mark_calls n (map (\<lambda>h. MarkTransaction h a) hs)
           (n\<lparr>neighbors :=
                AList.update a (nb\<lparr>knownTxs := knownTxs nb |\<union>| fset_of_list hs\<rparr>) (neighbors n)\<rparr>)"
  using assms
proof (induction hs arbitrary: n nb)
  case Nil
  have "n\<lparr>neighbors := AList.update a (nb\<lparr>knownTxs := knownTxs nb\<rparr>) (neighbors n)\<rparr> = n"
    using Nil.prems(1) by (simp add: update_triv)
  then show ?case using mark_calls_done [of n] by simp
next
  case (Cons h hs)
  let ?nb1 = "nb\<lparr>knownTxs := finsert h (knownTxs nb)\<rparr>"
  let ?n1 = "n\<lparr>neighbors := AList.update a ?nb1 (neighbors n)\<rparr>"
  from Cons.prems(3) have "\<not> MAX_KNOWN_TXS \<le> fcard (knownTxs nb)" by simp
  then have "evict MAX_KNOWN_TXS (knownTxs nb) (Inr (knownTxs nb))" by (rule evict_exit)
  from mark_transaction_step [OF Cons.prems(1,2) this]
  have step: "mark_transaction h a n (Inr (), ?n1)" .
  have e1: "map_of (neighbors ?n1) a = Some ?nb1" by (rule entry_after_update)
  have a1: "nb_address ?nb1 = a" using Cons.prems(2) by simp
  have "fcard (finsert h (knownTxs nb)) \<le> Suc (fcard (knownTxs nb))"
    by (simp add: fcard_finsert_if)
  with Cons.prems(3) have b1: "fcard (knownTxs ?nb1) + length hs \<le> MAX_KNOWN_TXS" by simp
  from Cons.IH [OF e1 a1 b1]
  have "mark_calls ?n1 (map (\<lambda>h. MarkTransaction h a) hs)
          (n\<lparr>neighbors := AList.update a
             (nb\<lparr>knownTxs := knownTxs nb |\<union>| fset_of_list (h # hs)\<rparr>) (neighbors n)\<rparr>)"
    by simp
  with step show ?case by (auto intro: mark_calls_transaction)
qed

lemma fcard_fset_of_list: "distinct xs \<Longrightarrow> fcard (fset_of_list xs) = length xs"
  by (induction xs) (simp_all add: fcard_fempty fcard_finsert_if fset_of_list_elem)

lemma fcard_known_pre:
  assumes "distinct pre" "'''' \<notin> set pre"
  shows "fcard (finsert '''' (fset_of_list pre)) = Suc (length pre)"
  using assms by (simp add: fcard_finsert_if fset_of_list_elem fcard_fset_of_list)

lemma evicting_run:
  assumes e: "map_of (neighbors n) a = Some nb" "nb_address nb = a" "knownTxs nb = {|''''|}"
    and d: "distinct (pre @ [p])" "'''' \<notin> set (pre @ [p])"
    and l: "Suc (length pre) = MAX_KNOWN_TXS"
    and x: "x |\<in>| finsert '''' (fset_of_list pre)"
    and y: "y |\<in>| finsert p (finsert '''' (fset_of_list pre) |-| {|x|})"
  shows "mark_calls n (map (\<lambda>h. MarkTransaction h a) (pre @ [p, q]))
           (n\<lparr>neighbors := AList.update a
              (nb\<lparr>knownTxs :=
                 finsert q (finsert p (finsert '''' (fset_of_list pre) |-| {|x|}) |-| {|y|})\<rparr>)
              (neighbors n)\<rparr>)"
proof -
  let ?S1 = "finsert '''' (fset_of_list pre)"
  let ?S2 = "finsert p (?S1 |-| {|x|})"
  let ?S3 = "finsert q (?S2 |-| {|y|})"
  let ?st = "\<lambda>X. n\<lparr>neighbors := AList.update a (nb\<lparr>knownTxs := X\<rparr>) (neighbors n)\<rparr>"
  have c0: "fcard (knownTxs nb) = 1" using e(3) by (simp add: fcard_finsert_if fcard_fempty)
  have c1: "fcard ?S1 = MAX_KNOWN_TXS"
    using fcard_known_pre [of pre] d l by simp
  have "fcard (knownTxs nb) + length pre \<le> MAX_KNOWN_TXS" using c0 l by simp
  from fill_run [OF e(1,2) this] have run1: "mark_calls n (map (\<lambda>h. MarkTransaction h a) pre) (?st ?S1)"
    using e(3) by simp
  have e1: "map_of (neighbors (?st ?S1)) a = Some (nb\<lparr>knownTxs := ?S1\<rparr>)"
    by (rule entry_after_update)
  have a1: "nb_address (nb\<lparr>knownTxs := ?S1\<rparr>) = a" using e(2) by simp
  have x1: "x |\<in>| ?S1" by (rule x)
  have ev1: "evict MAX_KNOWN_TXS (knownTxs (nb\<lparr>knownTxs := ?S1\<rparr>)) (Inr (?S1 |-| {|x|}))"
    using evict_one [OF c1 x1] by simp
  from mark_transaction_step [OF e1 a1 ev1, of p]
  have step2: "mark_transaction p a (?st ?S1) (Inr (), ?st ?S2)" by simp
  have p1: "p |\<notin>| ?S1" using d by (auto simp: fset_of_list_elem)
  have cA: "fcard (?S1 |-| {|x|}) = MAX_KNOWN_TXS - 1"
    using x1 c1 by (simp add: fcard_fminus_fsingleton)
  have "p |\<notin>| ?S1 |-| {|x|}" using p1 by simp
  then have "fcard ?S2 = Suc (fcard (?S1 |-| {|x|}))" by (rule fcard_finsert_disjoint)
  with cA have c2: "fcard ?S2 = MAX_KNOWN_TXS"
    using max_known_positive(2) by simp
  have e2: "map_of (neighbors (?st ?S2)) a = Some (nb\<lparr>knownTxs := ?S2\<rparr>)"
    by (rule entry_after_update)
  have a2: "nb_address (nb\<lparr>knownTxs := ?S2\<rparr>) = a" using e(2) by simp
  have ev2: "evict MAX_KNOWN_TXS (knownTxs (nb\<lparr>knownTxs := ?S2\<rparr>)) (Inr (?S2 |-| {|y|}))"
    using evict_one [OF c2 y] by simp
  from mark_transaction_step [OF e2 a2 ev2, of q]
  have step3: "mark_transaction q a (?st ?S2) (Inr (), ?st ?S3)" by simp
  have "mark_calls (?st ?S1) [MarkTransaction p a, MarkTransaction q a] (?st ?S3)"
    by (rule mark_calls_transaction [OF step2 mark_calls_transaction [OF step3 mark_calls_done]])
  from mark_calls_append [OF run1 this] show ?thesis by simp
qed

lemma split_last_two:
  assumes "length hs = Suc (Suc k)"
  shows "\<exists>pre p q. hs = pre @ [p, q] \<and> length pre = k"
proof -
  from assms have "hs \<noteq> []" by auto
  then obtain ys q where ys: "hs = ys @ [q]" by (metis rev_exhaust)
  with assms have "length ys = Suc k" by simp
  then have "ys \<noteq> []" by auto
  then obtain pre p where pre: "ys = pre @ [p]" by (metis rev_exhaust)
  with \<open>length ys = Suc k\<close> have "length pre = k" by simp
  with ys pre show ?thesis by simp
qed

text \<open>
  C6. A neighbour is freshly added, so its known-transactions set is \<^verbatim>\<open>{''}\<close>, and
  \<^verbatim>\<open>_mark_transaction\<close> is called for it with 30001 pairwise distinct transaction hashes.
  A transaction hash is the hexadecimal encoding of a Keccak-256 digest
  (\<^verbatim>\<open>encode_hex(keccak_256(...))\<close>, \<^verbatim>\<open>transaction.py\<close> line 37), so it is never the empty
  string. The calls have an outcome; in every outcome, whatever members \<^verbatim>\<open>pop()\<close> takes,
  the set has exactly 30000 members; and in some outcome the first hash is no longer a
  member: the one where the first \<^verbatim>\<open>pop()\<close> takes the empty string that
  \<^verbatim>\<open>add_neighbors\<close> put there and the second takes the first hash.
\<close>

theorem mark_30001_transactions:
  assumes "nd \<in> set nodes" and "distinct hs" and "length hs = 30001" and "'''' \<notin> set hs"
  shows "(\<exists>n'. mark_calls (add_neighbors self nodes)
                 (map (\<lambda>h. MarkTransaction h (address nd)) hs) n') \<and>
         (\<forall>n'. mark_calls (add_neighbors self nodes)
                 (map (\<lambda>h. MarkTransaction h (address nd)) hs) n' \<longrightarrow>
               (\<exists>nb. map_of (neighbors n') (address nd) = Some nb \<and>
                     fcard (knownTxs nb) = 30000)) \<and>
         (\<exists>n' nb. mark_calls (add_neighbors self nodes)
                 (map (\<lambda>h. MarkTransaction h (address nd)) hs) n' \<and>
               map_of (neighbors n') (address nd) = Some nb \<and> hd hs |\<notin>| knownTxs nb)"
proof -
  let ?n = "add_neighbors self nodes"
  let ?a = "address nd"
  let ?calls = "map (\<lambda>h. MarkTransaction h ?a) hs"
  from add_neighbors_installed [OF assms(1), of self] obtain nb where
    nb: "map_of (neighbors ?n) ?a = Some nb" "knownTxs nb = {|''''|}" "nb_address nb = ?a"
    by blast
  have c0: "fcard (knownTxs nb) = 1" using nb(2) by (simp add: fcard_finsert_if fcard_fempty)
  have total: "\<exists>n'. mark_calls ?n ?calls n'" by (rule mark_calls_total)
  have size: "\<exists>nb'. map_of (neighbors n') ?a = Some nb' \<and> fcard (knownTxs nb') = 30000"
    if run: "mark_calls ?n ?calls n'" for n'
  proof -
    have fresh: "\<forall>h \<in> set hs. h |\<notin>| knownTxs nb" using assms(4) nb(2) by auto
    have "fcard (knownTxs nb) \<le> MAX_KNOWN_TXS" using c0 by (simp add: MAX_KNOWN_TXS_def)
    from marks_universal [OF run nb(1,3) assms(2) fresh this] obtain X where
      X: "n' = ?n\<lparr>neighbors := AList.update ?a (nb\<lparr>knownTxs := X\<rparr>) (neighbors ?n)\<rparr>"
         "fcard X = min MAX_KNOWN_TXS (fcard (knownTxs nb) + length hs)"
      by blast
    have "map_of (neighbors n') ?a = Some (nb\<lparr>knownTxs := X\<rparr>)"
      unfolding X(1) by (rule entry_after_update)
    moreover have "fcard X = 30000" using X(2) c0 assms(3) by (simp add: MAX_KNOWN_TXS_def)
    ultimately show ?thesis by simp
  qed
  have gone: "\<exists>n' nb'. mark_calls ?n ?calls n' \<and> map_of (neighbors n') ?a = Some nb' \<and>
                hd hs |\<notin>| knownTxs nb'"
  proof -
    from assms(3) have "length hs = Suc (Suc 29999)" by simp
    from split_last_two [OF this] obtain pre p q where
      hs: "hs = pre @ [p, q]" and len: "length pre = 29999" by blast
    from len have ne: "pre \<noteq> []" by auto
    then have hd: "hd hs = hd pre" "hd pre \<in> set pre" using hs by simp_all
    have d: "distinct (pre @ [p])" "'''' \<notin> set (pre @ [p])" using assms(2,4) hs by auto
    have l: "Suc (length pre) = MAX_KNOWN_TXS" using len by (simp add: MAX_KNOWN_TXS_def)
    have x: "'''' |\<in>| finsert '''' (fset_of_list pre)" by simp
    have "hd pre \<noteq> ''''" using d(2) hd(2) by auto
    then have y: "hd pre |\<in>| finsert p (finsert '''' (fset_of_list pre) |-| {|''''|})"
      using hd(2) by (simp add: fset_of_list_elem)
    let ?X = "finsert q (finsert p (finsert '''' (fset_of_list pre) |-| {|''''|}) |-| {|hd pre|})"
    let ?n' = "?n\<lparr>neighbors := AList.update ?a (nb\<lparr>knownTxs := ?X\<rparr>) (neighbors ?n)\<rparr>"
    from evicting_run [OF nb(1,3,2) d l x y, of q]
    have run: "mark_calls ?n ?calls ?n'" using hs by simp
    have e: "map_of (neighbors ?n') ?a = Some (nb\<lparr>knownTxs := ?X\<rparr>)"
      by (rule entry_after_update)
    have "hd pre \<noteq> q" using assms(2) hs hd(2) by auto
    then have "hd hs |\<notin>| knownTxs (nb\<lparr>knownTxs := ?X\<rparr>)" using hd(1) by simp
    with run e show ?thesis by blast
  qed
  from total size gone show ?thesis by blast
qed

theorem mark_30001_transactions_witness:
  "node_b \<in> set [node_b] \<and> distinct (map sample_hash [0..<30001]) \<and>
   length (map sample_hash [0..<30001]) = 30001 \<and>
   '''' \<notin> set (map sample_hash [0..<30001]) \<and>
   (\<exists>n'. mark_calls (add_neighbors node_a [node_b])
           (map (\<lambda>h. MarkTransaction h (address node_b)) (map sample_hash [0..<30001])) n') \<and>
   \<not> (\<exists>n'. mark_calls (add_neighbors node_a [node_b])
           (map (\<lambda>h. MarkTransaction h (address node_b)) (map sample_hash [0..<30001])) n' \<and>
         \<not> (\<exists>nb. map_of (neighbors n') (address node_b) = Some nb \<and>
                  fcard (knownTxs nb) = 30000))"
proof -
  have h1: "node_b \<in> set [node_b]" by simp
  have h2: "distinct (map sample_hash [0..<30001])" by (rule distinct_samples)
  have h3: "length (map sample_hash [0..<30001]) = 30001" by simp
  have h4: "'''' \<notin> set (map sample_hash [0..<30001])" by (rule empty_not_sample)
  from mark_30001_transactions [OF h1 h2 h3 h4, of node_a] h1 h2 h3 h4
  show ?thesis by blast
qed

end
